theory Spec2Isabelle
  imports Main "HOL-Library.AList" "HOL-Library.Char_ord" "HOL-Library.List_Lexorder"
begin

section \<open>JavaScript values and JSON serialisation\<close>

text \<open>
  The cache stores JSON text. Values handed to the cache are modelled as JSON values; numbers
  are the integers (JavaScript's safe integers print as their decimal digits). An object is
  the list of its own properties in the order in which JavaScript enumerates them
  (\<open>Object.keys\<close>, spread, \<open>JSON.stringify\<close>): properties whose key is an array
  index come first, in ascending numeric order, the others follow in creation order.
  Strings are lists of 8-bit characters, compared by character code as JavaScript compares
  code units.
\<close>

datatype json = JNull | JBool bool | JNum int | JStr string
  | JArr "json list" | JObj "(string \<times> json) list"

type_synonym js_object = "(string \<times> json) list"

definition digit_char :: "nat \<Rightarrow> char" where
  "digit_char d = ''0123456789abcdef'' ! (d mod 16)"

fun decimal :: "nat \<Rightarrow> string" where
  "decimal n = (if n < 10 then [digit_char n] else decimal (n div 10) @ [digit_char (n mod 10)])"

declare decimal.simps [simp del]

definition is_digit :: "char \<Rightarrow> bool" where
  "is_digit c = (CHR ''0'' \<le> c \<and> c \<le> CHR ''9'')"

definition nat_of_digits :: "string \<Rightarrow> nat" where
  "nat_of_digits s = foldl (\<lambda>n c. 10 * n + (of_char c - 48)) 0 s"

text \<open>
  An array index is a property key that is the canonical decimal form of an integer
  from 0 to 2^32 - 2 (ECMAScript: the key equals \<open>ToString(ToNumber(key))\<close>).
\<close>

definition is_array_index :: "string \<Rightarrow> bool" where
  "is_array_index s = (s \<noteq> [] \<and> list_all is_digit s \<and> decimal (nat_of_digits s) = s
      \<and> nat_of_digits s < 2 ^ 32 - 1)"

fun insert_index :: "string \<Rightarrow> json \<Rightarrow> js_object \<Rightarrow> js_object" where
  "insert_index k v [] = [(k, v)]"
| "insert_index k v (p # ps) =
     (if is_array_index (fst p) \<and> nat_of_digits (fst p) < nat_of_digits k
      then p # insert_index k v ps else (k, v) # p # ps)"

text \<open>
  \<open>{...obj, [k]: v}\<close>: an existing property keeps its place and takes the new value; a new
  array-index key goes to its numeric place among the index keys; any other new key goes
  to the end.
\<close>

definition define_property :: "js_object \<Rightarrow> string \<Rightarrow> json \<Rightarrow> js_object" where
  "define_property obj k v =
     (if is_array_index k \<and> k \<notin> set (map fst obj) then insert_index k v obj
      else AList.update k v obj)"

definition Object_keys :: "js_object \<Rightarrow> string list" where
  "Object_keys obj = map fst obj"

fun intercalate :: "string \<Rightarrow> string list \<Rightarrow> string" where
  "intercalate sep [] = []"
| "intercalate sep [x] = x"
| "intercalate sep (x # y # ys) = x @ sep @ intercalate sep (y # ys)"

definition quote_char :: "char \<Rightarrow> string" where
  "quote_char c =
     (if c = CHR 0x22 then [CHR 0x5C, CHR 0x22]
      else if c = CHR 0x5C then [CHR 0x5C, CHR 0x5C]
      else if c = CHR 0x08 then [CHR 0x5C, CHR ''b'']
      else if c = CHR 0x0C then [CHR 0x5C, CHR ''f'']
      else if c = CHR 0x0A then [CHR 0x5C, CHR ''n'']
      else if c = CHR 0x0D then [CHR 0x5C, CHR ''r'']
      else if c = CHR 0x09 then [CHR 0x5C, CHR ''t'']
      else if (of_char c :: nat) < 32
        then [CHR 0x5C, CHR ''u'', CHR ''0'', CHR ''0'',
              digit_char (of_char c div 16), digit_char (of_char c mod 16)]
      else [c])"

definition quote :: "string \<Rightarrow> string" where
  "quote s = [CHR 0x22] @ concat (map quote_char s) @ [CHR 0x22]"

fun JSON_stringify :: "json \<Rightarrow> string" where
  "JSON_stringify JNull = ''null''"
| "JSON_stringify (JBool b) = (if b then ''true'' else ''false'')"
| "JSON_stringify (JNum n) = (if n < 0 then ''-'' @ decimal (nat (- n)) else decimal (nat n))"
| "JSON_stringify (JStr s) = quote s"
| "JSON_stringify (JArr xs) = ''['' @ intercalate '','' (map JSON_stringify xs) @ '']''"
| "JSON_stringify (JObj kvs) =
     ''{'' @ intercalate '','' (map (\<lambda>kv. quote (fst kv) @ '':'' @ JSON_stringify (snd kv)) kvs)
       @ ''}''"

section \<open>Cache keys\<close>

text \<open>
  \<open>generateCacheKey\<close>: the keys of \<open>params\<close> are sorted (the default \<open>sort\<close> compares
  strings by code unit) and an object is built from the empty object by one spread per key.
  \<open>params[key]\<close> of a key taken from \<open>Object.keys(params)\<close> is always present; were it
  \<open>undefined\<close>, \<open>JSON.stringify\<close> would leave the property out, which is the \<open>None\<close>
  branch.
\<close>

definition generateCacheKey :: "string \<Rightarrow> js_object \<Rightarrow> string" where
  "generateCacheKey namespace params =
     (let sortedParams =
            foldl (\<lambda>acc key. case map_of params key of
                                None \<Rightarrow> acc
                              | Some v \<Rightarrow> define_property acc key v)
                  [] (sort (Object_keys params))
      in ''audit:'' @ namespace @ '':'' @ JSON_stringify (JObj sortedParams))"

section \<open>The storage tiers\<close>

text \<open>
  A tier is a key-value store; an entry is the stored text with its expiry (seconds for
  the networked tiers, milliseconds for the in-process cache), absent when none was given.
  The networked stores are the contract each client offers (get, set, delete, keys).
  No time passes between the calls of a claim, so that no entry expires.
  An asynchronous function returns a value or rejects; both come with the state reached.
  Whether a call to a networked tier or to the database fails is an input, \<open>faults\<close>.
  Every tier call and every \<open>console.error\<close> is recorded in a trace
  (\<open>console.log\<close> is not).
\<close>

datatype tier = Redis | Rest | Lru | Fast | Db

datatype op = Get | Set | Del | Keys | FindUnique | Create | DeleteMany

datatype event = TierCall tier op string | ConsoleError string

datatype exn = TierError tier op | SyntaxError | TypeError | UniqueConstraintViolation
  | FetchFunctionError

type_synonym faults = "tier \<Rightarrow> op \<Rightarrow> bool"

type_synonym entry = "string \<times> nat option"

type_synonym store = "(string \<times> entry) list"

datatype CacheMode = Mode_redis | Mode_lru | Mode_disabled

record config =
  ENABLE_CACHE :: bool
  UPSTASH_REST_URL :: "string option"
  UPSTASH_REST_TOKEN :: "string option"
  DEFAULT_TTL :: nat

record cache_state =
  currentCacheMode :: CacheMode
  redisClient :: bool
  redis_db :: store
  rest_db :: store
  lruCache :: store
  trace :: "event list"

definition no_faults :: faults where
  "no_faults t a = False"

text \<open>JavaScript truthiness of a string that may be \<open>null\<close> or \<open>undefined\<close>.\<close>

definition truthy :: "string option \<Rightarrow> string option" where
  "truthy v = (case v of None \<Rightarrow> None | Some s \<Rightarrow> if s = [] then None else Some s)"

definition record_event :: "event \<Rightarrow> cache_state \<Rightarrow> cache_state" where
  "record_event e st = st\<lparr>trace := trace st @ [e]\<rparr>"

definition lookup :: "store \<Rightarrow> string \<Rightarrow> string option" where
  "lookup db key = map_option fst (map_of db key)"


definition redis_set ::
  "faults \<Rightarrow> string \<Rightarrow> string \<Rightarrow> nat \<Rightarrow> cache_state \<Rightarrow> (exn + unit) \<times> cache_state" where
  "redis_set F key v ttl st =
     (let st' = record_event (TierCall Redis Set key) st
      in if F Redis Set then (Inl (TierError Redis Set), st')
         else (Inr (), st'\<lparr>redis_db := AList.update key (v, Some ttl) (redis_db st')\<rparr>))"

text \<open>
  \<open>redisClient.keys(pattern)\<close>: the server matches its keys against the glob pattern;
  the matcher is the server's and is a parameter.
\<close>

definition redis_keys ::
  "(string \<Rightarrow> string \<Rightarrow> bool) \<Rightarrow> faults \<Rightarrow> string \<Rightarrow> cache_state
     \<Rightarrow> (exn + string list) \<times> cache_state" where
  "redis_keys glob F pattern st =
     (let st' = record_event (TierCall Redis Keys pattern) st
      in if F Redis Keys then (Inl (TierError Redis Keys), st')
         else (Inr (filter (glob pattern) (map fst (redis_db st'))), st'))"

definition redis_del :: "faults \<Rightarrow> string list \<Rightarrow> cache_state \<Rightarrow> (exn + unit) \<times> cache_state" where
  "redis_del F keys st =
     (let st' = foldl (\<lambda>s k. record_event (TierCall Redis Del k) s) st keys
      in if F Redis Del then (Inl (TierError Redis Del), st')
         else (Inr (), st'\<lparr>redis_db := filter (\<lambda>kv. fst kv \<notin> set keys) (redis_db st')\<rparr>))"

text \<open>
  The REST helpers return at once when the URL or the token is missing, and catch every
  error of the request themselves. \<open>restGet\<close> puts the key, as it is, at the end of the
  path of the request URL: the key that the service reads from that URL is the URL
  parser's and the service's matter and is a parameter, \<open>url_key\<close> (\<open>None\<close> when the
  URL is no request for one key; a \<open>#\<close> or \<open>?\<close> in the key ends the path). \<open>restSet\<close>
  and \<open>restDel\<close> send the key in the body of the request.
\<close>

definition rest_configured :: "config \<Rightarrow> bool" where
  "rest_configured cfg =
     (truthy (UPSTASH_REST_URL cfg) \<noteq> None \<and> truthy (UPSTASH_REST_TOKEN cfg) \<noteq> None)"


definition restSet ::
  "config \<Rightarrow> faults \<Rightarrow> string \<Rightarrow> string \<Rightarrow> nat \<Rightarrow> cache_state \<Rightarrow> cache_state" where
  "restSet cfg F key v ttl st =
     (if \<not> rest_configured cfg then st
      else let st' = record_event (TierCall Rest Set key) st
           in if F Rest Set then record_event (ConsoleError ''REST SET error:'') st'
              else st'\<lparr>rest_db := AList.update key (v, if ttl = 0 then None else Some ttl)
                                     (rest_db st')\<rparr>)"

definition restDel :: "config \<Rightarrow> faults \<Rightarrow> string \<Rightarrow> cache_state \<Rightarrow> cache_state" where
  "restDel cfg F key st =
     (if \<not> rest_configured cfg then st
      else let st' = record_event (TierCall Rest Del key) st
           in if F Rest Del then record_event (ConsoleError ''REST DEL error:'') st'
              else st'\<lparr>rest_db := AList.delete key (rest_db st')\<rparr>)"

text \<open>
  The in-process cache is an \<open>LRUCache\<close> of at most 500 entries and 50 MB, the size of an
  entry being the length of its text. Its entries are kept from the least recently used
  to the most recently used; \<open>get\<close> and \<open>set\<close> make an entry the most recent. \<open>set\<close>
  raises a TypeError for the empty text (size 0), removes the key and stores nothing when
  the text is longer than the maximal size, and otherwise evicts least recently used
  entries until the new one fits.
\<close>

definition lru_max :: nat where
  "lru_max = 500"

definition lru_maxSize :: nat where
  "lru_maxSize = 50 * 1024 * 1024"

definition total_size :: "store \<Rightarrow> nat" where
  "total_size es = sum_list (map (\<lambda>e. length (fst (snd e))) es)"

fun evict :: "nat \<Rightarrow> store \<Rightarrow> store" where
  "evict n [] = []"
| "evict n (e # es) =
     (if lru_max \<le> length (e # es) \<or> lru_maxSize < total_size (e # es) + n
      then evict n es else e # es)"


definition lru_set ::
  "string \<Rightarrow> string \<Rightarrow> nat \<Rightarrow> cache_state \<Rightarrow> (exn + unit) \<times> cache_state" where
  "lru_set key v ttl_ms st =
     (let st' = record_event (TierCall Lru Set key) st;
          others = filter (\<lambda>kv. fst kv \<noteq> key) (lruCache st')
      in if v = [] then (Inl TypeError, st')
         else if lru_maxSize < length v then (Inr (), st'\<lparr>lruCache := others\<rparr>)
         else (Inr (), st'\<lparr>lruCache := evict (length v) others @ [(key, (v, Some ttl_ms))]\<rparr>))"

definition lru_delete :: "string \<Rightarrow> cache_state \<Rightarrow> cache_state" where
  "lru_delete key st =
     (record_event (TierCall Lru Del key) st)\<lparr>lruCache := AList.delete key (lruCache st)\<rparr>"

text \<open>\<open>lruCache.keys()\<close>: the keys, the most recently used first.\<close>

definition lru_keys :: "cache_state \<Rightarrow> string list" where
  "lru_keys st = rev (map fst (lruCache st))"

section \<open>Cache operations\<close>





definition setCache_try ::
  "config \<Rightarrow> faults \<Rightarrow> string \<Rightarrow> json \<Rightarrow> nat option \<Rightarrow> cache_state
     \<Rightarrow> (exn + unit) \<times> cache_state" where
  "setCache_try cfg F key v ttlInSeconds st0 =
     (let stringValue = JSON_stringify v;
          ttl = (case ttlInSeconds of None \<Rightarrow> DEFAULT_TTL cfg
                 | Some t \<Rightarrow> if t = 0 then DEFAULT_TTL cfg else t)
      in case (if currentCacheMode st0 = Mode_redis \<and> redisClient st0
               then redis_set F key stringValue ttl st0 else (Inr (), st0)) of
           (Inl e, st1) \<Rightarrow> (Inl e, st1)
         | (Inr _, st1) \<Rightarrow>
             (let st2 = (if currentCacheMode st1 = Mode_lru \<and> truthy (UPSTASH_REST_URL cfg) \<noteq> None
                         then restSet cfg F key stringValue ttl st1 else st1)
              in lru_set key stringValue (ttl * 1000) st2))"

definition setCache ::
  "config \<Rightarrow> faults \<Rightarrow> string \<Rightarrow> json \<Rightarrow> nat option \<Rightarrow> cache_state
     \<Rightarrow> (exn + unit) \<times> cache_state" where
  "setCache cfg F key v ttlInSeconds st =
     (if \<not> ENABLE_CACHE cfg then (Inr (), st)
      else case setCache_try cfg F key v ttlInSeconds st of
             (Inl e, st') \<Rightarrow> (Inr (), record_event (ConsoleError ''Cache set error:'') st')
           | (Inr u, st') \<Rightarrow> (Inr (), st'))"

definition deleteCache ::
  "config \<Rightarrow> faults \<Rightarrow> string \<Rightarrow> cache_state \<Rightarrow> (exn + unit) \<times> cache_state" where
  "deleteCache cfg F key st =
     (if \<not> ENABLE_CACHE cfg then (Inr (), st)
      else case (if currentCacheMode st = Mode_redis \<and> redisClient st
                 then redis_del F [key] st else (Inr (), st)) of
             (Inl e, st1) \<Rightarrow> (Inr (), record_event (ConsoleError ''Cache delete error:'') st1)
           | (Inr _, st1) \<Rightarrow>
               (let st2 = (if currentCacheMode st1 = Mode_lru \<and> truthy (UPSTASH_REST_URL cfg) \<noteq> None
                           then restDel cfg F key st1 else st1)
                in (Inr (), lru_delete key st2)))"

text \<open>\<open>String.prototype.includes\<close>: the pattern occurs in the key as a substring.\<close>

fun starts_with :: "string \<Rightarrow> string \<Rightarrow> bool" where
  "starts_with s [] = True"
| "starts_with [] (p # ps) = False"
| "starts_with (c # cs) (p # ps) = (c = p \<and> starts_with cs ps)"

fun str_includes :: "string \<Rightarrow> string \<Rightarrow> bool" where
  "str_includes [] p = (p = [])"
| "str_includes (c # cs) p = (starts_with (c # cs) p \<or> str_includes cs p)"

definition invalidatePattern ::
  "config \<Rightarrow> (string \<Rightarrow> string \<Rightarrow> bool) \<Rightarrow> faults \<Rightarrow> string \<Rightarrow> cache_state
     \<Rightarrow> (exn + nat) \<times> cache_state" where
  "invalidatePattern cfg glob F pattern st =
     (if \<not> ENABLE_CACHE cfg \<or> currentCacheMode st \<noteq> Mode_redis \<or> \<not> redisClient st
      then (if currentCacheMode st = Mode_lru
            then (let keys = filter (\<lambda>key. str_includes key pattern) (lru_keys st)
                  in (Inr (length keys), foldl (\<lambda>s key. lru_delete key s) st keys))
            else (Inr 0, st))
      else case redis_keys glob F pattern st of
             (Inl e, st1) \<Rightarrow> (Inr 0, record_event (ConsoleError ''Cache invalidation error:'') st1)
           | (Inr keys, st1) \<Rightarrow>
               (if length keys > 0
                then (case redis_del F keys st1 of
                        (Inl e, st2) \<Rightarrow>
                          (Inr 0, record_event (ConsoleError ''Cache invalidation error:'') st2)
                      | (Inr _, st2) \<Rightarrow> (Inr (length keys), st2))
                else (Inr (length keys), st1)))"

definition invalidateStats ::
  "config \<Rightarrow> (string \<Rightarrow> string \<Rightarrow> bool) \<Rightarrow> faults \<Rightarrow> cache_state \<Rightarrow> (exn + nat) \<times> cache_state" where
  "invalidateStats cfg glob F st = invalidatePattern cfg glob F ''audit:stats:*'' st"


section \<open>Deduplication of events\<close>

text \<open>
  The fast tier is the Upstash client of the deduplication service (absent unless caching
  is enabled and the REST URL is set); the durable tier is the table \<open>eventDedup\<close>, whose
  \<open>eventId\<close> is unique. Times are milliseconds since the epoch. \<open>setDate(getDate() + 7)\<close>
  works on the local time: the time is taken to local time, seven days of
  \<open>86400000\<close> ms are added there, and the sum is taken back. The two conversions are those
  of the time zone of the process and are parameters.
\<close>

record timezone =
  LocalTime :: "int \<Rightarrow> int"
  UTC :: "int \<Rightarrow> int"

record DedupRecord =
  eventId :: string
  sourceService :: string
  expiresAt :: int

record dedup_state =
  dedup_redisClient :: bool
  fast_db :: store
  eventDedup :: "DedupRecord list"
  dedup_trace :: "event list"

definition dedup_event :: "event \<Rightarrow> dedup_state \<Rightarrow> dedup_state" where
  "dedup_event e st = st\<lparr>dedup_trace := dedup_trace st @ [e]\<rparr>"

definition dedup_key :: "string \<Rightarrow> string" where
  "dedup_key eid = ''audit:dedup:'' @ eid"

definition fast_get :: "faults \<Rightarrow> string \<Rightarrow> dedup_state \<Rightarrow> (exn + string option) \<times> dedup_state" where
  "fast_get F key st =
     (let st' = dedup_event (TierCall Fast Get key) st
      in if F Fast Get then (Inl (TierError Fast Get), st')
         else (Inr (lookup (fast_db st') key), st'))"

definition fast_set ::
  "faults \<Rightarrow> string \<Rightarrow> string \<Rightarrow> nat \<Rightarrow> dedup_state \<Rightarrow> (exn + unit) \<times> dedup_state" where
  "fast_set F key v ex st =
     (let st' = dedup_event (TierCall Fast Set key) st
      in if F Fast Set then (Inl (TierError Fast Set), st')
         else (Inr (), st'\<lparr>fast_db := AList.update key (v, Some ex) (fast_db st')\<rparr>))"

definition findUnique ::
  "faults \<Rightarrow> string \<Rightarrow> dedup_state \<Rightarrow> (exn + DedupRecord option) \<times> dedup_state" where
  "findUnique F eid st =
     (let st' = dedup_event (TierCall Db FindUnique eid) st
      in if F Db FindUnique then (Inl (TierError Db FindUnique), st')
         else (Inr (find (\<lambda>r. eventId r = eid) (eventDedup st')), st'))"

definition create :: "faults \<Rightarrow> DedupRecord \<Rightarrow> dedup_state \<Rightarrow> (exn + unit) \<times> dedup_state" where
  "create F r st =
     (let st' = dedup_event (TierCall Db Create (eventId r)) st
      in if F Db Create then (Inl (TierError Db Create), st')
         else if eventId r \<in> set (map eventId (eventDedup st'))
           then (Inl UniqueConstraintViolation, st')
         else (Inr (), st'\<lparr>eventDedup := eventDedup st' @ [r]\<rparr>))"

definition deleteMany_expired ::
  "faults \<Rightarrow> int \<Rightarrow> dedup_state \<Rightarrow> (exn + nat) \<times> dedup_state" where
  "deleteMany_expired F now st =
     (let st' = dedup_event (TierCall Db DeleteMany []) st
      in if F Db DeleteMany then (Inl (TierError Db DeleteMany), st')
         else (Inr (length (filter (\<lambda>r. expiresAt r < now) (eventDedup st'))),
               st'\<lparr>eventDedup := filter (\<lambda>r. \<not> expiresAt r < now) (eventDedup st')\<rparr>))"

definition isDuplicate_try ::
  "faults \<Rightarrow> string \<Rightarrow> dedup_state \<Rightarrow> (exn + bool) \<times> dedup_state" where
  "isDuplicate_try F eid st0 =
     (case (if dedup_redisClient st0 then fast_get F (dedup_key eid) st0 else (Inr None, st0)) of
        (Inl e, st1) \<Rightarrow> (Inl e, st1)
      | (Inr exists, st1) \<Rightarrow>
          (case truthy exists of
             Some s \<Rightarrow> (Inr True, st1)
           | None \<Rightarrow>
               (case findUnique F eid st1 of
                  (Inl e, st2) \<Rightarrow> (Inl e, st2)
                | (Inr None, st2) \<Rightarrow> (Inr False, st2)
                | (Inr (Some existing), st2) \<Rightarrow>
                    (if dedup_redisClient st2
                     then (case fast_set F (dedup_key eid) ''1'' 3600 st2 of
                             (Inl e, st3) \<Rightarrow> (Inl e, st3)
                           | (Inr _, st3) \<Rightarrow> (Inr True, st3))
                     else (Inr True, st2)))))"

definition isDuplicate ::
  "faults \<Rightarrow> string \<Rightarrow> string \<Rightarrow> dedup_state \<Rightarrow> (exn + bool) \<times> dedup_state" where
  "isDuplicate F eid svc st =
     (if eid = [] then (Inr False, st)
      else case isDuplicate_try F eid st of
             (Inl e, st') \<Rightarrow>
               (Inr False, dedup_event (ConsoleError ''[Dedup] Error checking duplicate:'') st')
           | (Inr b, st') \<Rightarrow> (Inr b, st'))"

definition markAsProcessed_try ::
  "faults \<Rightarrow> timezone \<Rightarrow> int \<Rightarrow> string \<Rightarrow> string \<Rightarrow> dedup_state
     \<Rightarrow> (exn + unit) \<times> dedup_state" where
  "markAsProcessed_try F tz now eid svc st0 =
     (let expires = UTC tz (LocalTime tz now + 7 * 86400000)
      in case create F \<lparr>eventId = eid, sourceService = svc, expiresAt = expires\<rparr> st0 of
           (Inl e, st1) \<Rightarrow> (Inl e, st1)
         | (Inr _, st1) \<Rightarrow>
             (if dedup_redisClient st1 then fast_set F (dedup_key eid) ''1'' 604800 st1
              else (Inr (), st1)))"

definition markAsProcessed ::
  "faults \<Rightarrow> timezone \<Rightarrow> int \<Rightarrow> string \<Rightarrow> string \<Rightarrow> dedup_state
     \<Rightarrow> (exn + unit) \<times> dedup_state" where
  "markAsProcessed F tz now eid svc st =
     (if eid = [] then (Inr (), st)
      else case markAsProcessed_try F tz now eid svc st of
             (Inl e, st') \<Rightarrow>
               (Inr (), dedup_event (ConsoleError ''[Dedup] Error marking event as processed:'') st')
           | (Inr u, st') \<Rightarrow> (Inr (), st'))"

definition cleanupExpired :: "faults \<Rightarrow> int \<Rightarrow> dedup_state \<Rightarrow> (exn + nat) \<times> dedup_state" where
  "cleanupExpired F now st =
     (case deleteMany_expired F now st of
        (Inl e, st') \<Rightarrow>
          (Inr 0, dedup_event (ConsoleError ''[Dedup] Error cleaning up expired records:'') st')
      | (Inr count, st') \<Rightarrow> (Inr count, st'))"

section \<open>Properties of the cache key\<close>

lemma update_fresh: "k \<notin> fst ` set al \<Longrightarrow> AList.update k v al = al @ [(k, v)]"
  by (induction al) auto

lemma insert_index_append:
  assumes "\<forall>x\<in>set A. is_array_index (fst x)" "\<forall>x\<in>set B. \<not> is_array_index (fst x)"
  shows "insert_index k v (A @ B) = insort_key (\<lambda>kv. nat_of_digits (fst kv)) (k, v) A @ B"
  using assms
proof (induction A)
  case Nil
  then show ?case by (cases B) auto
next
  case (Cons a A)
  then show ?case by (auto simp: not_less)
qed

lemma nat_of_digits_inj:
  "is_array_index s \<Longrightarrow> is_array_index t \<Longrightarrow> nat_of_digits s = nat_of_digits t \<Longrightarrow> s = t"
  by (metis is_array_index_def)

lemma foldl_define_property:
  assumes "\<forall>x\<in>set A. is_array_index (fst x)" "\<forall>x\<in>set B. \<not> is_array_index (fst x)"
    and "distinct ks" "set ks \<inter> fst ` set (A @ B) = {}" "set ks \<subseteq> dom (map_of p)"
  shows "foldl (\<lambda>acc key. case map_of p key of None \<Rightarrow> acc | Some v \<Rightarrow> define_property acc key v)
           (A @ B) ks
       = foldl (\<lambda>acc x. insort_key (\<lambda>kv. nat_of_digits (fst kv)) x acc) A
           (map (\<lambda>k. (k, the (map_of p k))) (filter is_array_index ks))
         @ B @ map (\<lambda>k. (k, the (map_of p k))) (filter (\<lambda>k. \<not> is_array_index k) ks)"
  using assms
proof (induction ks arbitrary: A B)
  case Nil
  then show ?case by simp
next
  case (Cons k ks)
  from Cons.prems obtain v where v: "map_of p k = Some v" by auto
  have fresh: "k \<notin> fst ` set (A @ B)" using Cons.prems by auto
  show ?case
  proof (cases "is_array_index k")
    case True
    let ?A = "insort_key (\<lambda>kv. nat_of_digits (fst kv)) (k, v) A"
    have dp: "define_property (A @ B) k v = ?A @ B"
      using True fresh Cons.prems(1,2) by (auto simp: define_property_def insert_index_append)
    have "\<forall>x\<in>set ?A. is_array_index (fst x)"
      using True Cons.prems(1) by (auto simp: set_insort_key)
    moreover have "set ks \<inter> fst ` set (?A @ B) = {}"
      using Cons.prems(3,4) by (auto simp: set_insort_key)
    ultimately show ?thesis
      using Cons.IH[of ?A B] Cons.prems True v dp by simp
  next
    case False
    have dp: "define_property (A @ B) k v = A @ (B @ [(k, v)])"
      using False fresh by (auto simp: define_property_def update_fresh)
    have "\<forall>x\<in>set (B @ [(k, v)]). \<not> is_array_index (fst x)"
      using False Cons.prems(2) by auto
    moreover have "set ks \<inter> fst ` set (A @ (B @ [(k, v)])) = {}"
      using Cons.prems(3,4) by auto
    ultimately show ?thesis
      using Cons.IH[of A "B @ [(k, v)]"] Cons.prems False v dp by simp
  qed
qed

lemma sort_key_unique:
  assumes "inj_on f (set xs)" "distinct xs" "distinct ys" "set xs = set ys"
  shows "sort_key f xs = sort_key f ys"
proof -
  have "map f (sort_key f xs) = map f (sort_key f ys)"
  proof (rule sorted_distinct_set_unique)
    show "distinct (map f (sort_key f xs))" using assms by (simp add: distinct_map)
    show "distinct (map f (sort_key f ys))" using assms by (simp add: distinct_map)
  qed (use assms in auto)
  moreover have "inj_on f (set (sort_key f xs) \<union> set (sort_key f ys))"
    using assms by simp
  ultimately show ?thesis by (simp add: inj_on_map_eq_map)
qed

lemma pair_lookup:
  "distinct (map fst p) \<Longrightarrow> kv \<in> set p \<Longrightarrow> (fst kv, the (map_of p (fst kv))) = kv"
  by (cases kv) simp

lemma pair_image:
  assumes "distinct (map fst p)"
  shows "(\<lambda>k. (k, the (map_of p k))) ` {k \<in> fst ` set p. P k} = {kv \<in> set p. P (fst kv)}"
proof -
  have "\<And>kv. kv \<in> set p \<Longrightarrow> (fst kv, the (map_of p (fst kv))) = kv"
    using assms by (rule pair_lookup)
  then show ?thesis by (force simp: image_iff)
qed

lemma sortedParams_form:
  assumes d: "distinct (map fst p)"
  shows "foldl (\<lambda>acc key. case map_of p key of None \<Rightarrow> acc | Some v \<Rightarrow> define_property acc key v)
           [] (sort (Object_keys p))
       = sort_key (\<lambda>kv. nat_of_digits (fst kv)) (filter (\<lambda>kv. is_array_index (fst kv)) p)
         @ sort_key fst (filter (\<lambda>kv. \<not> is_array_index (fst kv)) p)"
proof -
  let ?f = "\<lambda>kv::string \<times> json. nat_of_digits (fst kv)"
  let ?pair = "\<lambda>k. (k, the (map_of p k))"
  let ?ks = "sort (map fst p)"
  let ?I = "map ?pair (filter is_array_index ?ks)"
  let ?N = "map ?pair (filter (\<lambda>k. \<not> is_array_index k) ?ks)"
  have dks: "distinct ?ks" using d by simp
  have "set ?ks \<subseteq> dom (map_of p)" by (auto simp: dom_map_of_conv_image_fst)
  with dks have fold_eq:
    "foldl (\<lambda>acc key. case map_of p key of None \<Rightarrow> acc | Some v \<Rightarrow> define_property acc key v)
       ([] @ []) ?ks = foldl (\<lambda>acc x. insort_key ?f x acc) [] ?I @ [] @ ?N"
    by (intro foldl_define_property) auto
  have inj_pair: "inj_on ?pair A" for A by (auto simp: inj_on_def)
  have inj_fst: "inj_on fst (set p)" using d by (simp add: distinct_map)
  \<comment> \<open>the array-index part\<close>
  have "foldl (\<lambda>acc x. insort_key ?f x acc) [] ?I = sort_key ?f (rev ?I)"
    by (simp add: foldl_conv_foldr sort_key_def)
  also have "\<dots> = sort_key ?f (filter (\<lambda>kv. is_array_index (fst kv)) p)"
  proof (rule sort_key_unique)
    have setI: "set (rev ?I) = {kv \<in> set p. is_array_index (fst kv)}"
      using pair_image[OF d, of is_array_index] by (simp add: Collect_conj_eq Int_commute image_Int_subset) 
    show "set (rev ?I) = set (filter (\<lambda>kv. is_array_index (fst kv)) p)"
      using setI by auto
    show "distinct (rev ?I)" using dks by (simp add: distinct_map inj_pair)
    show "distinct (filter (\<lambda>kv. is_array_index (fst kv)) p)"
      using d by (simp add: distinct_map)
    show "inj_on ?f (set (rev ?I))"
      unfolding setI using inj_fst nat_of_digits_inj
      by (auto simp: inj_on_def) 
  qed
  finally have idx: "foldl (\<lambda>acc x. insort_key ?f x acc) [] ?I
      = sort_key ?f (filter (\<lambda>kv. is_array_index (fst kv)) p)" .
  \<comment> \<open>the other keys\<close>
  have "map fst ?N = filter (\<lambda>k. \<not> is_array_index k) ?ks" by (simp add: comp_def)
  moreover have "sorted (filter (\<lambda>k. \<not> is_array_index k) ?ks)"
    by (rule sorted_wrt_filter) simp
  ultimately have "sorted (map fst ?N)" by simp
  then have "?N = sort_key fst ?N" by (simp add: sort_key_id_if_sorted)
  also have "\<dots> = sort_key fst (filter (\<lambda>kv. \<not> is_array_index (fst kv)) p)"
  proof (rule sort_key_unique)
    have setN: "set ?N = {kv \<in> set p. \<not> is_array_index (fst kv)}"
      using pair_image[OF d, of "\<lambda>k. \<not> is_array_index k"] by (simp add: Collect_conj_eq Int_commute)
    show "set ?N = set (filter (\<lambda>kv. \<not> is_array_index (fst kv)) p)"
      using setN by auto
    show "distinct ?N" using dks by (simp add: distinct_map inj_pair)
    show "distinct (filter (\<lambda>kv. \<not> is_array_index (fst kv)) p)"
      using d by (simp add: distinct_map)
    show "inj_on fst (set ?N)"
      unfolding setN using inj_fst by (auto simp: inj_on_def)
  qed
  finally have non: "?N = sort_key fst (filter (\<lambda>kv. \<not> is_array_index (fst kv)) p)" .
  show ?thesis
    using fold_eq idx non by (simp add: Object_keys_def)
qed

text \<open>
  Claim C2, first as it is worded: for parameters with the same key/value pairs in any
  order of insertion the key is the same, and the key is \<open>audit:\<close> + namespace + \<open>:\<close> +
  the JSON text of the parameters with the keys sorted lexicographically. The second half
  fails for keys that are array indices: for \<open>{"9": 2, "10": 1}\<close> the sorted keys are
  \<open>"10", "9"\<close>, but the object built from them enumerates \<open>"9"\<close> first.
\<close>

theorem generateCacheKey_sorted_form_counterexample:
  \<open>generateCacheKey ''x'' [(''9'', JNum 2), (''10'', JNum 1)] = ''audit:x:{"9":2,"10":1}''
   \<and> generateCacheKey ''x'' [(''9'', JNum 2), (''10'', JNum 1)]
       \<noteq> ''audit:'' @ ''x'' @ '':'' @ JSON_stringify (JObj (sort_key fst [(''9'', JNum 2), (''10'', JNum 1)]))\<close>
  by (simp add: generateCacheKey_def Object_keys_def define_property_def is_array_index_def
      nat_of_digits_def decimal.simps is_digit_def digit_char_def quote_def quote_char_def)

text \<open>
  Claim C2 as amended: the key does not depend on the order of insertion, and it is
  \<open>audit:\<close> + namespace + \<open>:\<close> + the JSON text of the parameters with the array-index
  keys first, in ascending numeric order, followed by the other keys sorted
  lexicographically; when no key is an array index, all keys are sorted lexicographically.
\<close>

theorem generateCacheKey_deterministic:
  assumes "distinct (map fst p1)" "distinct (map fst p2)" "set p1 = set p2"
  shows "generateCacheKey ns p1 = generateCacheKey ns p2
    \<and> generateCacheKey ns p1 = ''audit:'' @ ns @ '':'' @ JSON_stringify (JObj
          (sort_key (\<lambda>kv. nat_of_digits (fst kv)) (filter (\<lambda>kv. is_array_index (fst kv)) p1)
           @ sort_key fst (filter (\<lambda>kv. \<not> is_array_index (fst kv)) p1)))
    \<and> ((\<forall>kv\<in>set p1. \<not> is_array_index (fst kv)) \<longrightarrow>
          generateCacheKey ns p1 = ''audit:'' @ ns @ '':'' @ JSON_stringify (JObj (sort_key fst p1)))"
proof -
  have "map_of p1 = map_of p2"
    using assms by (simp add: map_of_inject_set)
  moreover have "sort (Object_keys p1) = sort (Object_keys p2)"
  proof (rule sorted_distinct_set_unique)
    show "set (sort (Object_keys p1)) = set (sort (Object_keys p2))"
      using assms(3) by (simp add: Object_keys_def)
  qed (use assms in \<open>simp_all add: Object_keys_def\<close>)
  ultimately have same: "generateCacheKey ns p1 = generateCacheKey ns p2"
    by (simp add: generateCacheKey_def)
  have form: "generateCacheKey ns p1 = ''audit:'' @ ns @ '':'' @ JSON_stringify (JObj
          (sort_key (\<lambda>kv. nat_of_digits (fst kv)) (filter (\<lambda>kv. is_array_index (fst kv)) p1)
           @ sort_key fst (filter (\<lambda>kv. \<not> is_array_index (fst kv)) p1)))"
    using sortedParams_form[OF assms(1)] by (simp add: generateCacheKey_def)
  have "filter (\<lambda>kv. is_array_index (fst kv)) p1 = []
      \<and> filter (\<lambda>kv. \<not> is_array_index (fst kv)) p1 = p1"
    if "\<forall>kv\<in>set p1. \<not> is_array_index (fst kv)"
    using that by (simp add: filter_empty_conv)
  with form have "(\<forall>kv\<in>set p1. \<not> is_array_index (fst kv)) \<longrightarrow>
      generateCacheKey ns p1 = ''audit:'' @ ns @ '':'' @ JSON_stringify (JObj (sort_key fst p1))"
    by simp
  with same form show ?thesis by blast
qed

theorem generateCacheKey_deterministic_witness:
  \<open>distinct (map fst [(''userRole'', JStr ''Admin''), (''days'', JNum 7)])
   \<and> distinct (map fst [(''days'', JNum 7), (''userRole'', JStr ''Admin'')])
   \<and> set [(''userRole'', JStr ''Admin''), (''days'', JNum 7)]
       = set [(''days'', JNum 7), (''userRole'', JStr ''Admin'')]
   \<and> \<not> is_array_index ''userRole'' \<and> \<not> is_array_index ''days''
   \<and> generateCacheKey ''recent'' [(''userRole'', JStr ''Admin''), (''days'', JNum 7)]
       = generateCacheKey ''recent'' [(''days'', JNum 7), (''userRole'', JStr ''Admin'')]
   \<and> generateCacheKey ''recent'' [(''userRole'', JStr ''Admin''), (''days'', JNum 7)]
       = ''audit:recent:{"days":7,"userRole":"Admin"}''\<close>
proof -
  let ?p1 = "[(''userRole'', JStr ''Admin''), (''days'', JNum 7)]"
  let ?p2 = "[(''days'', JNum 7), (''userRole'', JStr ''Admin'')]"
  have h1: "distinct (map fst ?p1)" and h2: "distinct (map fst ?p2)" by simp_all
  have h3: "set ?p1 = set ?p2" by auto
  have h4: "\<forall>kv\<in>set ?p1. \<not> is_array_index (fst kv)"
    by (simp add: is_array_index_def is_digit_def)
  note det = generateCacheKey_deterministic[OF h1 h2 h3, of "''recent''"]
  have same: "generateCacheKey ''recent'' ?p1 = generateCacheKey ''recent'' ?p2"
    using det by blast
  have form: "generateCacheKey ''recent'' ?p1
      = ''audit:'' @ ''recent'' @ '':'' @ JSON_stringify (JObj (sort_key fst ?p1))"
    using det h4 by blast
  have key_eq: \<open>generateCacheKey ''recent'' ?p1 = ''audit:recent:{"days":7,"userRole":"Admin"}''\<close>
    by (subst form) (simp add: quote_def quote_char_def decimal.simps digit_char_def)
  note same key_eq
  with h1 h2 h3 h4 show ?thesis by simp
qed

section \<open>Properties of the deduplication guard\<close>

lemma truthy_eq_Some [simp]: "truthy v = Some s \<longleftrightarrow> v = Some s \<and> s \<noteq> []"
  by (auto simp: truthy_def split: option.splits)

lemma truthy_eq_None: "truthy v = None \<longleftrightarrow> v = None \<or> v = Some []"
  by (auto simp: truthy_def split: option.splits)

lemma lookup_update [simp]: "lookup (AList.update k (v, t) db) k' = (if k' = k then Some v else lookup db k')"
  by (simp add: lookup_def update_conv')





lemma find_eventId: "r \<in> set rs \<Longrightarrow> find (\<lambda>x. eventId x = eventId r) rs \<noteq> None"
  by (auto simp: find_None_iff)



text \<open>
  Claim C6, first as it is worded: the record created by \<open>markAsProcessed\<close> would have
  \<open>expiresAt\<close> equal to the creation time plus seven days, as the sentinel expires after
  604800 seconds. The code adds seven calendar days in local time: in a time zone whose
  clocks go forward by one hour within the week, the record expires 6 days and 23 hours
  after its creation.
\<close>

theorem markAsProcessed_expiresAt_counterexample:
  "eventDedup (snd (markAsProcessed no_faults
        \<lparr>LocalTime = (\<lambda>t. if t < 86400000 then t else t + 3600000),
          UTC = (\<lambda>t. if t < 90000000 then t else t - 3600000)\<rparr>
        0 ''evt-1'' ''finance''
        \<lparr>dedup_redisClient = True, fast_db = [], eventDedup = [], dedup_trace = []\<rparr>))
     = [\<lparr>eventId = ''evt-1'', sourceService = ''finance'', expiresAt = 601200000\<rparr>]
   \<and> (601200000 :: int) \<noteq> 0 + 7 * 86400000"
  by (simp add: markAsProcessed_def markAsProcessed_try_def create_def fast_set_def
      dedup_event_def dedup_key_def no_faults_def Let_def)

text \<open>
  Claim C6 as amended: after a successful \<open>markAsProcessed\<close> of a non-empty event id, which
  has created the record with \<open>expiresAt\<close> seven calendar days after the creation time in
  local time (the creation time plus \<open>7 * 86400000\<close> ms when the offset of the local time
  from UTC is constant) and, when the fast tier is there, the sentinel expiring after
  604800 seconds, an immediate \<open>isDuplicate\<close> returns \<open>true\<close>, unless a tier call of the
  check itself raises (the check then fails open and returns \<open>false\<close>).
\<close>

theorem markAsProcessed_then_isDuplicate:
  assumes "eid \<noteq> []" "markAsProcessed_try F tz now eid svc st = (Inr (), sm)"
    and "fst (isDuplicate_try F' eid sm) = Inr b"
  shows "markAsProcessed F tz now eid svc st = (Inr (), sm)
     \<and> \<lparr>eventId = eid, sourceService = svc,
          expiresAt = UTC tz (LocalTime tz now + 7 * 86400000)\<rparr> \<in> set (eventDedup sm)
     \<and> ((\<forall>t. LocalTime tz t = t + c) \<and> (\<forall>t. UTC tz t = t - c) \<longrightarrow>
          \<lparr>eventId = eid, sourceService = svc, expiresAt = now + 7 * 86400000\<rparr>
            \<in> set (eventDedup sm))
     \<and> (dedup_redisClient st \<longrightarrow> map_of (fast_db sm) (dedup_key eid) = Some (''1'', Some 604800))
     \<and> fst (isDuplicate F' eid svc' sm) = Inr True"
proof -
  let ?r = "\<lparr>eventId = eid, sourceService = svc,
              expiresAt = UTC tz (LocalTime tz now + 7 * 86400000)\<rparr>"
  from assms(2) have created: "?r \<in> set (eventDedup sm)"
    and client: "dedup_redisClient sm = dedup_redisClient st"
    and fast: "dedup_redisClient st \<longrightarrow> map_of (fast_db sm) (dedup_key eid) = Some (''1'', Some 604800)"
    by (auto simp: markAsProcessed_try_def create_def fast_set_def dedup_event_def Let_def update_conv'
          split: if_splits sum.splits prod.splits)
  have fixed: "\<lparr>eventId = eid, sourceService = svc, expiresAt = now + 7 * 86400000\<rparr>
            \<in> set (eventDedup sm)"
    if "\<forall>t. LocalTime tz t = t + c" "\<forall>t. UTC tz t = t - c"
  proof -
    have "UTC tz (LocalTime tz now + 7 * 86400000) = now + 7 * 86400000"
      using that by simp
    with created show ?thesis by simp
  qed
  from created have found: "find (\<lambda>x. eventId x = eid) (eventDedup sm) \<noteq> None"
    using find_eventId[of ?r "eventDedup sm"] by simp
  have "b = True"
    using assms(3) found fast client
    by (auto simp: isDuplicate_try_def fast_get_def fast_set_def findUnique_def
          dedup_event_def Let_def lookup_def truthy_def
          split: option.splits sum.splits prod.splits if_splits)
  with assms(1,3) have "fst (isDuplicate F' eid svc' sm) = Inr True"
    by (cases "isDuplicate_try F' eid sm") (simp add: isDuplicate_def)
  with created fixed fast assms(1,2) show ?thesis by (simp add: markAsProcessed_def)
qed

theorem markAsProcessed_then_isDuplicate_witness:
  "''evt-1'' \<noteq> []
   \<and> markAsProcessed_try no_faults \<lparr>LocalTime = (\<lambda>t. t + 28800000), UTC = (\<lambda>t. t - 28800000)\<rparr>
        1000 ''evt-1'' ''finance''
        \<lparr>dedup_redisClient = True, fast_db = [], eventDedup = [], dedup_trace = []\<rparr>
       = (Inr (), \<lparr>dedup_redisClient = True,
            fast_db = [(''audit:dedup:evt-1'', (''1'', Some 604800))],
            eventDedup = [\<lparr>eventId = ''evt-1'', sourceService = ''finance'', expiresAt = 604801000\<rparr>],
            dedup_trace = [TierCall Db Create ''evt-1'', TierCall Fast Set ''audit:dedup:evt-1'']\<rparr>)
   \<and> fst (isDuplicate_try no_faults ''evt-1''
        \<lparr>dedup_redisClient = True,
            fast_db = [(''audit:dedup:evt-1'', (''1'', Some 604800))],
            eventDedup = [\<lparr>eventId = ''evt-1'', sourceService = ''finance'', expiresAt = 604801000\<rparr>],
            dedup_trace = [TierCall Db Create ''evt-1'', TierCall Fast Set ''audit:dedup:evt-1'']\<rparr>)
       = Inr True
   \<and> (\<forall>t. LocalTime \<lparr>LocalTime = (\<lambda>t. t + 28800000), UTC = (\<lambda>t. t - 28800000)\<rparr> t
              = t + 28800000)
   \<and> (\<forall>t. UTC \<lparr>LocalTime = (\<lambda>t. t + 28800000), UTC = (\<lambda>t. t - 28800000)\<rparr> t
              = t - 28800000)
   \<and> dedup_redisClient \<lparr>dedup_redisClient = True, fast_db = [], eventDedup = [], dedup_trace = []\<rparr>
   \<and> \<lparr>eventId = ''evt-1'', sourceService = ''finance'', expiresAt = 1000 + 7 * 86400000\<rparr>
       \<in> set (eventDedup \<lparr>dedup_redisClient = True,
            fast_db = [(''audit:dedup:evt-1'', (''1'', Some 604800))],
            eventDedup = [\<lparr>eventId = ''evt-1'', sourceService = ''finance'', expiresAt = 604801000\<rparr>],
            dedup_trace = [TierCall Db Create ''evt-1'', TierCall Fast Set ''audit:dedup:evt-1'']\<rparr>)
   \<and> fst (isDuplicate no_faults ''evt-1'' ''finance''
        \<lparr>dedup_redisClient = True,
            fast_db = [(''audit:dedup:evt-1'', (''1'', Some 604800))],
            eventDedup = [\<lparr>eventId = ''evt-1'', sourceService = ''finance'', expiresAt = 604801000\<rparr>],
            dedup_trace = [TierCall Db Create ''evt-1'', TierCall Fast Set ''audit:dedup:evt-1'']\<rparr>)
       = Inr True"
proof -
  let ?tz = "\<lparr>LocalTime = (\<lambda>t::int. t + 28800000), UTC = (\<lambda>t::int. t - 28800000)\<rparr>"
  let ?st = "\<lparr>dedup_redisClient = True, fast_db = [], eventDedup = [], dedup_trace = []\<rparr>"
  let ?st1 = "\<lparr>dedup_redisClient = True,
            fast_db = [(''audit:dedup:evt-1'', (''1'', Some 604800))],
            eventDedup = [\<lparr>eventId = ''evt-1'', sourceService = ''finance'', expiresAt = 604801000\<rparr>],
            dedup_trace = [TierCall Db Create ''evt-1'', TierCall Fast Set ''audit:dedup:evt-1'']\<rparr>"
  have h1: "''evt-1'' \<noteq> []" by simp
  have h2: "markAsProcessed_try no_faults ?tz 1000 ''evt-1'' ''finance'' ?st = (Inr (), ?st1)"
    by (simp add: markAsProcessed_try_def create_def fast_set_def dedup_event_def dedup_key_def
        no_faults_def Let_def)
  have h3: "fst (isDuplicate_try no_faults ''evt-1'' ?st1) = Inr True"
    by (simp add: isDuplicate_try_def fast_get_def dedup_event_def dedup_key_def lookup_def
        truthy_def no_faults_def Let_def)
  have h4: "\<forall>t. LocalTime ?tz t = t + 28800000" "\<forall>t. UTC ?tz t = t - 28800000"
    by simp_all
  note m = markAsProcessed_then_isDuplicate[where F = no_faults and tz = ?tz and now = 1000
      and eid = "''evt-1''" and svc = "''finance''" and st = ?st and sm = ?st1
      and F' = no_faults and b = True and c = 28800000 and svc' = "''finance''", OF h1 h2 h3]
  have r: "\<lparr>eventId = ''evt-1'', sourceService = ''finance'', expiresAt = 1000 + 7 * 86400000\<rparr>
       \<in> set (eventDedup ?st1)"
    by (rule m[THEN conjunct2, THEN conjunct2, THEN conjunct1, THEN mp, OF conjI[OF h4]])
  have d: "fst (isDuplicate no_faults ''evt-1'' ''finance'' ?st1) = Inr True"
    by (rule m[THEN conjunct2, THEN conjunct2, THEN conjunct2, THEN conjunct2])
  from h1 h2 h3 h4 r d show ?thesis by simp
qed

text \<open>
  Claim C8: \<open>cleanupExpired\<close> removes exactly the records whose \<open>expiresAt\<close> is strictly
  before the current time, keeps every other record, and returns the number of records
  removed (when the database call fails nothing is removed and 0 is returned).
\<close>

theorem cleanupExpired_removes_expired:
  "fst (cleanupExpired F now st)
     = Inr (length (eventDedup st) - length (eventDedup (snd (cleanupExpired F now st))))
   \<and> (\<forall>x\<in>set (eventDedup st). \<not> expiresAt x < now
         \<longrightarrow> x \<in> set (eventDedup (snd (cleanupExpired F now st))))
   \<and> set (eventDedup (snd (cleanupExpired F now st))) \<subseteq> set (eventDedup st)
   \<and> (\<not> F Db DeleteMany \<longrightarrow>
         eventDedup (snd (cleanupExpired F now st))
           = filter (\<lambda>x. \<not> expiresAt x < now) (eventDedup st)
         \<and> fst (cleanupExpired F now st)
           = Inr (length (filter (\<lambda>x. expiresAt x < now) (eventDedup st))))"
proof -
  have "length (filter (\<lambda>x. expiresAt x < now) xs)
      = length xs - length (filter (\<lambda>x. \<not> expiresAt x < now) xs)" for xs :: "DedupRecord list"
    using sum_length_filter_compl[of "\<lambda>x. expiresAt x < now" xs] by simp
  then show ?thesis
    by (auto simp: cleanupExpired_def deleteMany_expired_def dedup_event_def Let_def)
qed

theorem cleanupExpired_removes_expired_witness:
  "\<not> no_faults Db DeleteMany
   \<and> eventDedup (snd (cleanupExpired no_faults 10
        \<lparr>dedup_redisClient = False, fast_db = [],
         eventDedup = [\<lparr>eventId = ''a'', sourceService = ''s'', expiresAt = 5\<rparr>,
                       \<lparr>eventId = ''b'', sourceService = ''s'', expiresAt = 10\<rparr>,
                       \<lparr>eventId = ''c'', sourceService = ''s'', expiresAt = 15\<rparr>],
         dedup_trace = []\<rparr>))
       = [\<lparr>eventId = ''b'', sourceService = ''s'', expiresAt = 10\<rparr>,
          \<lparr>eventId = ''c'', sourceService = ''s'', expiresAt = 15\<rparr>]
   \<and> fst (cleanupExpired no_faults 10
        \<lparr>dedup_redisClient = False, fast_db = [],
         eventDedup = [\<lparr>eventId = ''a'', sourceService = ''s'', expiresAt = 5\<rparr>,
                       \<lparr>eventId = ''b'', sourceService = ''s'', expiresAt = 10\<rparr>,
                       \<lparr>eventId = ''c'', sourceService = ''s'', expiresAt = 15\<rparr>],
         dedup_trace = []\<rparr>) = Inr 1"
proof -
  let ?st = "\<lparr>dedup_redisClient = False, fast_db = [],
         eventDedup = [\<lparr>eventId = ''a'', sourceService = ''s'', expiresAt = 5\<rparr>,
                       \<lparr>eventId = ''b'', sourceService = ''s'', expiresAt = 10\<rparr>,
                       \<lparr>eventId = ''c'', sourceService = ''s'', expiresAt = 15\<rparr>],
         dedup_trace = []\<rparr>"
  have h: "\<not> no_faults Db DeleteMany" by (simp add: no_faults_def)
  from cleanupExpired_removes_expired[of no_faults 10 ?st] h
  have "eventDedup (snd (cleanupExpired no_faults 10 ?st))
           = filter (\<lambda>x. \<not> expiresAt x < 10) (eventDedup ?st)"
    and "fst (cleanupExpired no_faults 10 ?st)
           = Inr (length (filter (\<lambda>x. expiresAt x < 10) (eventDedup ?st)))"
    by blast+
  with h show ?thesis by simp
qed

text \<open>
  Claim C9: for the empty event id \<open>isDuplicate\<close> returns \<open>false\<close> and
  \<open>markAsProcessed\<close> does nothing: the state, with its trace of tier calls, is unchanged,
  whatever the tiers hold and whichever calls would fail.
\<close>

theorem dedup_guard_empty_eventId:
  "isDuplicate F [] svc st = (Inr False, st) \<and> markAsProcessed F tz now [] svc st = (Inr (), st)"
  by (simp add: isDuplicate_def markAsProcessed_def)

section \<open>Properties of the cache\<close>

lemma decimal_nonempty: "decimal n \<noteq> []"
  by (subst decimal.simps) simp

lemma JSON_stringify_nonempty: "JSON_stringify v \<noteq> []"
  by (cases v) (simp_all add: decimal_nonempty quote_def)

lemma truthy_truthy [simp]: "truthy (truthy v) = truthy v"
  by (auto simp: truthy_def split: option.splits)

lemma truthy_Some [simp]: "truthy (Some s) = (if s = [] then None else Some s)"
  by (simp add: truthy_def)

lemma truthy_None [simp]: "truthy None = None"
  by (simp add: truthy_def)

lemma record_event_fields [simp]:
  "currentCacheMode (record_event e st) = currentCacheMode st"
  "redisClient (record_event e st) = redisClient st"
  "redis_db (record_event e st) = redis_db st"
  "rest_db (record_event e st) = rest_db st"
  "lruCache (record_event e st) = lruCache st"
  "trace (record_event e st) = trace st @ [e]"
  by (simp_all add: record_event_def)



text \<open>Making an entry the most recent one changes no lookup.\<close>

lemma map_of_move_to_end:
  assumes "map_of xs key = Some e"
  shows "map_of (filter (\<lambda>kv. fst kv \<noteq> key) xs @ [(key, e)]) = map_of xs"
proof
  fix k
  have other: "map_of (filter (\<lambda>kv. fst kv \<noteq> key) xs) k = (if k = key then None else map_of xs k)"
    by (induction xs) auto
  show "map_of (filter (\<lambda>kv. fst kv \<noteq> key) xs @ [(key, e)]) k = map_of xs k"
    using assms other by (cases "k = key") (simp_all add: map_add_def split: option.splits)
qed

lemma lookup_touched [simp]:
  "lookup (case map_of xs key of None \<Rightarrow> xs
           | Some e \<Rightarrow> filter (\<lambda>kv. fst kv \<noteq> key) xs @ [(key, e)]) k = lookup xs k"
proof (cases "map_of xs key")
  case None
  then show ?thesis by simp
next
  case (Some e)
  then show ?thesis
    using map_of_move_to_end[OF Some] by (simp add: lookup_def)
qed


lemma rest_configured_url: "rest_configured cfg \<Longrightarrow> truthy (UPSTASH_REST_URL cfg) \<noteq> None"
  by (simp add: rest_configured_def)





lemma redis_set_eq:
  "redis_set F key v ttl st =
     (if F Redis Set then (Inl (TierError Redis Set), record_event (TierCall Redis Set key) st)
      else (Inr (), (record_event (TierCall Redis Set key) st)
                      \<lparr>redis_db := AList.update key (v, Some ttl) (redis_db st)\<rparr>))"
  by (simp add: redis_set_def Let_def)

lemma restSet_eq:
  "restSet cfg F key v ttl st =
     (if \<not> rest_configured cfg then st
      else if F Rest Set
        then record_event (ConsoleError ''REST SET error:'') (record_event (TierCall Rest Set key) st)
        else (record_event (TierCall Rest Set key) st)
               \<lparr>rest_db := AList.update key (v, if ttl = 0 then None else Some ttl) (rest_db st)\<rparr>)"
  by (simp add: restSet_def Let_def)

text \<open>Eviction drops entries from the least recently used end only.\<close>

lemma evict_suffix: "\<exists>ys. es = ys @ evict n es"
proof (induction es)
  case Nil
  then show ?case by simp
next
  case (Cons e es)
  then obtain ys where ys: "es = ys @ evict n es" by blast
  show ?case
  proof (cases "lru_max \<le> length (e # es) \<or> lru_maxSize < total_size (e # es) + n")
    case True
    then have "evict n (e # es) = evict n es" by simp
    then have "e # es = (e # ys) @ evict n (e # es)" using ys by simp
    then show ?thesis by blast
  next
    case False
    then have "e # es = [] @ evict n (e # es)" by simp
    then show ?thesis by blast
  qed
qed

lemma set_evict: "set (evict n es) \<subseteq> set es"
proof -
  obtain ys where "es = ys @ evict n es" using evict_suffix by blast
  then have "set es = set ys \<union> set (evict n es)" by (metis set_append)
  then show ?thesis by blast
qed

lemma evict_fits:
  "length (evict n es) < lru_max \<and> total_size (evict n es) + n \<le> lru_maxSize \<or> evict n es = []"
  by (induction es) (auto simp: total_size_def)

lemma lookup_others: "lookup (filter (\<lambda>kv. fst kv \<noteq> key) es) key = None"
  by (simp add: lookup_def map_of_eq_None_iff image_iff)

lemma lookup_stored:
  "lookup (evict n (filter (\<lambda>kv. fst kv \<noteq> key) es) @ [(key, (v, t))]) key = Some v"
proof -
  have "key \<notin> fst ` set (evict n (filter (\<lambda>kv. fst kv \<noteq> key) es))"
    using set_evict[of n "filter (\<lambda>kv. fst kv \<noteq> key) es"] by auto
  then have "map_of (evict n (filter (\<lambda>kv. fst kv \<noteq> key) es)) key = None"
    by (simp add: map_of_eq_None_iff)
  then show ?thesis by (simp add: lookup_def map_add_def)
qed

lemma lru_set_eq:
  assumes "v \<noteq> []"
  shows "lru_set key v ttl_ms st =
     (Inr (), (record_event (TierCall Lru Set key) st)
        \<lparr>lruCache :=
           (if lru_maxSize < length v then filter (\<lambda>kv. fst kv \<noteq> key) (lruCache st)
            else evict (length v) (filter (\<lambda>kv. fst kv \<noteq> key) (lruCache st))
                   @ [(key, (v, Some ttl_ms))])\<rparr>)"
  using assms by (simp add: lru_set_def Let_def)


lemma setCache_redis_throw:
  assumes "ENABLE_CACHE cfg" "currentCacheMode st = Mode_redis" "redisClient st" "F Redis Set"
  shows "setCache cfg F key v ttl st
       = (Inr (), record_event (ConsoleError ''Cache set error:'')
                    (record_event (TierCall Redis Set key) st))"
  using assms by (simp add: setCache_def setCache_try_def redis_set_eq Let_def)

text \<open>The state after a \<open>setCache\<close> whose Redis write did not raise.\<close>

lemma setCache_state:
  fixes cfg F key v ttl st
  assumes "ENABLE_CACHE cfg" "\<not> (currentCacheMode st = Mode_redis \<and> redisClient st \<and> F Redis Set)"
  defines "st' \<equiv> snd (setCache cfg F key v ttl st)"
  shows "currentCacheMode st' = currentCacheMode st" "redisClient st' = redisClient st"
    and "lookup (lruCache st') key
           = (if length (JSON_stringify v) \<le> lru_maxSize then Some (JSON_stringify v) else None)"
    and "currentCacheMode st = Mode_redis \<and> redisClient st
           \<Longrightarrow> lookup (redis_db st') key = Some (JSON_stringify v)"
    and "currentCacheMode st = Mode_lru \<and> rest_configured cfg \<and> \<not> F Rest Set
           \<Longrightarrow> lookup (rest_db st') key = Some (JSON_stringify v)"
proof -
  note ne = JSON_stringify_nonempty[of v]
  show "currentCacheMode st' = currentCacheMode st" "redisClient st' = redisClient st"
    and "lookup (lruCache st') key
           = (if length (JSON_stringify v) \<le> lru_maxSize then Some (JSON_stringify v) else None)"
    using assms(1,2) ne unfolding st'_def
    by (cases "currentCacheMode st = Mode_redis \<and> redisClient st";
        cases "currentCacheMode st = Mode_lru \<and> truthy (UPSTASH_REST_URL cfg) \<noteq> None";
        cases "rest_configured cfg"; cases "F Rest Set";
        simp add: setCache_def setCache_try_def redis_set_eq restSet_eq lru_set_eq Let_def
          lookup_others lookup_stored)+
  show "lookup (redis_db st') key = Some (JSON_stringify v)"
    if "currentCacheMode st = Mode_redis \<and> redisClient st"
    using that assms(1,2) ne unfolding st'_def
    by (simp add: setCache_def setCache_try_def redis_set_eq lru_set_eq Let_def)
  show "lookup (rest_db st') key = Some (JSON_stringify v)"
    if "currentCacheMode st = Mode_lru \<and> rest_configured cfg \<and> \<not> F Rest Set"
    using that assms(1,2) ne rest_configured_url[of cfg] unfolding st'_def
    by (simp add: setCache_def setCache_try_def restSet_eq lru_set_eq Let_def)
qed

lemma setCache_fst: "fst (setCache cfg F key v ttl st) = Inr ()"
  by (cases "setCache_try cfg F key v ttl st"; cases "fst (setCache_try cfg F key v ttl st)")
     (auto simp: setCache_def)




lemma starts_with_iff: "starts_with s p \<longleftrightarrow> (\<exists>b. s = p @ b)"
  by (induction s p rule: starts_with.induct) auto

lemma str_includes_iff: "str_includes s p \<longleftrightarrow> (\<exists>a b. s = a @ p @ b)"
proof (induction s)
  case Nil
  then show ?case by auto
next
  case (Cons c cs)
  have "(\<exists>a b. c # cs = a @ p @ b) \<longleftrightarrow> (\<exists>b. c # cs = p @ b) \<or> (\<exists>a b. cs = a @ p @ b)"
  proof
    assume "\<exists>a b. c # cs = a @ p @ b"
    then obtain a b where ab: "c # cs = a @ p @ b" by blast
    show "(\<exists>b. c # cs = p @ b) \<or> (\<exists>a b. cs = a @ p @ b)"
    proof (cases a)
      case Nil
      with ab show ?thesis by auto
    next
      case (Cons x xs)
      with ab have "cs = xs @ p @ b" by simp
      then show ?thesis by blast
    qed
  next
    assume "(\<exists>b. c # cs = p @ b) \<or> (\<exists>a b. cs = a @ p @ b)"
    then show "\<exists>a b. c # cs = a @ p @ b"
    proof
      assume "\<exists>b. c # cs = p @ b"
      then obtain b where "c # cs = [] @ p @ b" by auto
      then show ?thesis by blast
    next
      assume "\<exists>a b. cs = a @ p @ b"
      then obtain a b where "c # cs = (c # a) @ p @ b" by auto
      then show ?thesis by blast
    qed
  qed
  with Cons show ?case by (simp add: starts_with_iff)
qed

lemma lru_delete_fields [simp]:
  "currentCacheMode (lru_delete k st) = currentCacheMode st"
  "redisClient (lru_delete k st) = redisClient st"
  "redis_db (lru_delete k st) = redis_db st"
  "rest_db (lru_delete k st) = rest_db st"
  "lruCache (lru_delete k st) = filter (\<lambda>kv. fst kv \<noteq> k) (lruCache st)"
  by (auto simp: lru_delete_def AList.delete_eq intro: filter_cong)

lemma lru_delete_fold:
  "lruCache (foldl (\<lambda>s k. lru_delete k s) st keys) = filter (\<lambda>kv. fst kv \<notin> set keys) (lruCache st)"
  "redis_db (foldl (\<lambda>s k. lru_delete k s) st keys) = redis_db st"
  by (induction keys arbitrary: st) (auto intro: filter_cong)

lemma invalidatePattern_lru:
  assumes "currentCacheMode st = Mode_lru"
  shows "fst (invalidatePattern cfg glob F pattern st)
           = Inr (length (filter (\<lambda>key. str_includes key pattern) (map fst (lruCache st))))"
    and "lruCache (snd (invalidatePattern cfg glob F pattern st))
           = filter (\<lambda>kv. \<not> str_includes (fst kv) pattern) (lruCache st)"
proof -
  have len: "length (filter P (rev xs)) = length (filter P xs)" for P and xs :: "string list"
    by (simp flip: rev_filter)
  show "fst (invalidatePattern cfg glob F pattern st)
           = Inr (length (filter (\<lambda>key. str_includes key pattern) (map fst (lruCache st))))"
    using assms by (simp add: invalidatePattern_def Let_def lru_keys_def len)
  show "lruCache (snd (invalidatePattern cfg glob F pattern st))
           = filter (\<lambda>kv. \<not> str_includes (fst kv) pattern) (lruCache st)"
    using assms
    by (auto simp: invalidatePattern_def Let_def lru_keys_def lru_delete_fold intro: filter_cong)
qed

lemma redis_del_fields:
  "lruCache (snd (redis_del F keys st)) = lruCache st"
  "\<not> F Redis Del \<Longrightarrow> fst (redis_del F keys st) = Inr ()"
  "\<not> F Redis Del \<Longrightarrow>
     redis_db (snd (redis_del F keys st)) = filter (\<lambda>kv. fst kv \<notin> set keys) (redis_db st)"
proof -
  have f: "lruCache (foldl (\<lambda>s k. record_event (TierCall Redis Del k) s) st ks) = lruCache st
      \<and> redis_db (foldl (\<lambda>s k. record_event (TierCall Redis Del k) s) st ks) = redis_db st"
    for ks by (induction ks arbitrary: st) auto
  show "lruCache (snd (redis_del F keys st)) = lruCache st"
    "\<not> F Redis Del \<Longrightarrow> fst (redis_del F keys st) = Inr ()"
    "\<not> F Redis Del \<Longrightarrow>
     redis_db (snd (redis_del F keys st)) = filter (\<lambda>kv. fst kv \<notin> set keys) (redis_db st)"
    using f by (simp_all add: redis_del_def Let_def)
qed

lemma invalidatePattern_redis:
  assumes "ENABLE_CACHE cfg" "currentCacheMode st = Mode_redis" "redisClient st"
  shows "lruCache (snd (invalidatePattern cfg glob F pattern st)) = lruCache st"
    and "\<not> F Redis Keys \<and> \<not> F Redis Del \<Longrightarrow>
          fst (invalidatePattern cfg glob F pattern st)
            = Inr (length (filter (glob pattern) (map fst (redis_db st))))"
    and "\<not> F Redis Keys \<and> \<not> F Redis Del \<Longrightarrow>
          redis_db (snd (invalidatePattern cfg glob F pattern st))
            = filter (\<lambda>kv. \<not> glob pattern (fst kv)) (redis_db st)"
proof -
  let ?ks = "filter (glob pattern) (map fst (redis_db st))"
  let ?st1 = "record_event (TierCall Redis Keys pattern) st"
  have keys: "redis_keys glob F pattern st
      = (if F Redis Keys then Inl (TierError Redis Keys) else Inr ?ks, ?st1)"
    by (simp add: redis_keys_def Let_def)
  have del: "redis_del F ?ks ?st1 = (fst (redis_del F ?ks ?st1), snd (redis_del F ?ks ?st1))"
    by simp
  show "lruCache (snd (invalidatePattern cfg glob F pattern st)) = lruCache st"
    using assms redis_del_fields(1)[of F ?ks ?st1]
    by (cases "fst (redis_del F ?ks ?st1)")
       (auto simp: invalidatePattern_def keys split: prod.splits sum.splits)
  assume nf: "\<not> F Redis Keys \<and> \<not> F Redis Del"
  show "fst (invalidatePattern cfg glob F pattern st) = Inr (length ?ks)"
    using assms nf redis_del_fields(2)[of F ?ks ?st1]
    by (auto simp: invalidatePattern_def keys split: prod.splits sum.splits)
  have flt: "filter (\<lambda>kv. fst kv \<notin> set ?ks) (redis_db st)
      = filter (\<lambda>kv. \<not> glob pattern (fst kv)) (redis_db st)"
    by (auto intro: filter_cong)
  show "redis_db (snd (invalidatePattern cfg glob F pattern st))
            = filter (\<lambda>kv. \<not> glob pattern (fst kv)) (redis_db st)"
  proof (cases "0 < length ?ks")
    case True
    have "invalidatePattern cfg glob F pattern st = (Inr (length ?ks), snd (redis_del F ?ks ?st1))"
      using assms nf True redis_del_fields(2)[of F ?ks ?st1]
      by (cases "redis_del F ?ks ?st1") (simp add: invalidatePattern_def keys)
    then show ?thesis
      using nf redis_del_fields(3)[of F ?ks ?st1] flt by simp
  next
    case False
    then have none: "\<forall>kv\<in>set (redis_db st). \<not> glob pattern (fst kv)"
      by (auto simp: filter_empty_conv)
    have "invalidatePattern cfg glob F pattern st = (Inr (length ?ks), ?st1)"
      using assms nf False by (simp add: invalidatePattern_def keys)
    then show ?thesis
      using none by (simp add: filter_id_conv)
  qed
qed







text \<open>
  Claim C1 says that \<open>setCache\<close> writes the in-process tier in every mode, also when the
  write to the networked tier raises. The REST helper catches its own errors, so that in
  Fallback mode the in-process write follows even a failed REST write. The Redis write
  stands in the same \<open>try\<close> block as the in-process write: when it raises in Primary mode,
  the error is logged and swallowed and the in-process write is skipped. In every other
  case with caching enabled the in-process write is made, and the in-process tier holds
  the serialised value afterwards unless that text exceeds its size bound of 50 MB.
\<close>

theorem setCache_redis_error_skips_lru:
  "(ENABLE_CACHE cfg \<and> currentCacheMode st = Mode_redis \<and> redisClient st \<and> F Redis Set \<longrightarrow>
      setCache cfg F key v ttl st
        = (Inr (), st\<lparr>trace := trace st @ [TierCall Redis Set key,
                                             ConsoleError ''Cache set error:'']\<rparr>)
      \<and> lruCache (snd (setCache cfg F key v ttl st)) = lruCache st)
   \<and> (ENABLE_CACHE cfg \<and> \<not> (currentCacheMode st = Mode_redis \<and> redisClient st \<and> F Redis Set) \<longrightarrow>
      fst (setCache cfg F key v ttl st) = Inr ()
      \<and> lookup (lruCache (snd (setCache cfg F key v ttl st))) key
          = (if length (JSON_stringify v) \<le> lru_maxSize then Some (JSON_stringify v) else None))"
proof -
  have "setCache cfg F key v ttl st
        = (Inr (), st\<lparr>trace := trace st @ [TierCall Redis Set key,
                                             ConsoleError ''Cache set error:'']\<rparr>)
      \<and> lruCache (snd (setCache cfg F key v ttl st)) = lruCache st"
    if "ENABLE_CACHE cfg" "currentCacheMode st = Mode_redis" "redisClient st" "F Redis Set"
    using that by (simp add: setCache_redis_throw record_event_def)
  moreover have "lookup (lruCache (snd (setCache cfg F key v ttl st))) key
          = (if length (JSON_stringify v) \<le> lru_maxSize then Some (JSON_stringify v) else None)"
    if "ENABLE_CACHE cfg" "\<not> (currentCacheMode st = Mode_redis \<and> redisClient st \<and> F Redis Set)"
    using that by (rule setCache_state(3))
  ultimately show ?thesis using setCache_fst[of cfg F key v ttl st] by blast
qed

theorem setCache_redis_error_skips_lru_witness:
  "ENABLE_CACHE \<lparr>ENABLE_CACHE = True, UPSTASH_REST_URL = Some ''https://r'',
          UPSTASH_REST_TOKEN = Some ''tok'', DEFAULT_TTL = 300\<rparr>
   \<and> currentCacheMode \<lparr>currentCacheMode = Mode_redis, redisClient = True, redis_db = [], rest_db = [],
          lruCache = [], trace = []\<rparr> = Mode_redis
   \<and> redisClient \<lparr>currentCacheMode = Mode_redis, redisClient = True, redis_db = [], rest_db = [],
          lruCache = [], trace = []\<rparr>
   \<and> (Redis = Redis \<and> Set = Set)
   \<and> setCache \<lparr>ENABLE_CACHE = True, UPSTASH_REST_URL = Some ''https://r'',
          UPSTASH_REST_TOKEN = Some ''tok'', DEFAULT_TTL = 300\<rparr>
        (\<lambda>t a. t = Redis \<and> a = Set) ''stats:today'' (JNum 1) (Some 3600)
        \<lparr>currentCacheMode = Mode_redis, redisClient = True, redis_db = [], rest_db = [],
          lruCache = [], trace = []\<rparr>
       = (Inr (), \<lparr>currentCacheMode = Mode_redis, redisClient = True, redis_db = [],
                   rest_db = [], lruCache = [],
                   trace = [TierCall Redis Set ''stats:today'', ConsoleError ''Cache set error:'']\<rparr>)
   \<and> lookup (lruCache (snd (setCache \<lparr>ENABLE_CACHE = True, UPSTASH_REST_URL = Some ''https://r'',
          UPSTASH_REST_TOKEN = Some ''tok'', DEFAULT_TTL = 300\<rparr>
        (\<lambda>t a. t = Redis \<and> a = Set) ''stats:today'' (JNum 1) (Some 3600)
        \<lparr>currentCacheMode = Mode_redis, redisClient = True, redis_db = [], rest_db = [],
          lruCache = [], trace = []\<rparr>))) ''stats:today'' = None
   \<and> \<not> (currentCacheMode \<lparr>currentCacheMode = Mode_lru, redisClient = True, redis_db = [], rest_db = [],
          lruCache = [], trace = []\<rparr> = Mode_redis)
   \<and> (Rest = Rest \<and> Set = Set)
   \<and> lookup (lruCache (snd (setCache \<lparr>ENABLE_CACHE = True, UPSTASH_REST_URL = Some ''https://r'',
          UPSTASH_REST_TOKEN = Some ''tok'', DEFAULT_TTL = 300\<rparr>
        (\<lambda>t a. t = Rest \<and> a = Set) ''stats:today'' (JNum 1) (Some 3600)
        \<lparr>currentCacheMode = Mode_lru, redisClient = True, redis_db = [], rest_db = [],
          lruCache = [], trace = []\<rparr>))) ''stats:today'' = Some ''1''
   \<and> trace (snd (setCache \<lparr>ENABLE_CACHE = True, UPSTASH_REST_URL = Some ''https://r'',
          UPSTASH_REST_TOKEN = Some ''tok'', DEFAULT_TTL = 300\<rparr>
        (\<lambda>t a. t = Rest \<and> a = Set) ''stats:today'' (JNum 1) (Some 3600)
        \<lparr>currentCacheMode = Mode_lru, redisClient = True, redis_db = [], rest_db = [],
          lruCache = [], trace = []\<rparr>))
       = [TierCall Rest Set ''stats:today'', ConsoleError ''REST SET error:'',
          TierCall Lru Set ''stats:today'']"
proof -
  let ?cfg = "\<lparr>ENABLE_CACHE = True, UPSTASH_REST_URL = Some ''https://r'',
          UPSTASH_REST_TOKEN = Some ''tok'', DEFAULT_TTL = 300\<rparr>"
  let ?r = "\<lparr>currentCacheMode = Mode_redis, redisClient = True, redis_db = [], rest_db = [],
          lruCache = [], trace = []\<rparr>"
  let ?l = "\<lparr>currentCacheMode = Mode_lru, redisClient = True, redis_db = [], rest_db = [],
          lruCache = [], trace = []\<rparr>"
  let ?FR = "\<lambda>(t::tier) (a::op). t = Redis \<and> a = Set"
  let ?FL = "\<lambda>(t::tier) (a::op). t = Rest \<and> a = Set"
  have hr: "ENABLE_CACHE ?cfg \<and> currentCacheMode ?r = Mode_redis \<and> redisClient ?r \<and> ?FR Redis Set"
    by simp
  have hl: "ENABLE_CACHE ?cfg \<and> \<not> (currentCacheMode ?l = Mode_redis \<and> redisClient ?l \<and> ?FL Redis Set)"
    by simp
  note r = setCache_redis_error_skips_lru[where cfg = ?cfg and st = ?r and F = ?FR
      and key = "''stats:today''" and v = "JNum 1" and ttl = "Some 3600",
      THEN conjunct1, THEN mp, OF hr]
  note l = setCache_redis_error_skips_lru[where cfg = ?cfg and st = ?l and F = ?FL
      and key = "''stats:today''" and v = "JNum 1" and ttl = "Some 3600",
      THEN conjunct2, THEN mp, OF hl]
  have r1: "setCache ?cfg ?FR ''stats:today'' (JNum 1) (Some 3600) ?r
       = (Inr (), \<lparr>currentCacheMode = Mode_redis, redisClient = True, redis_db = [],
                   rest_db = [], lruCache = [],
                   trace = [TierCall Redis Set ''stats:today'', ConsoleError ''Cache set error:'']\<rparr>)"
    using r by simp
  have r2: "lookup (lruCache (snd (setCache ?cfg ?FR ''stats:today'' (JNum 1) (Some 3600) ?r)))
      ''stats:today'' = None"
    using r by (simp add: lookup_def)
  have l1: "lookup (lruCache (snd (setCache ?cfg ?FL ''stats:today'' (JNum 1) (Some 3600) ?l)))
      ''stats:today'' = Some ''1''"
    using l by (simp add: decimal.simps digit_char_def lru_maxSize_def)
  have l2: "trace (snd (setCache ?cfg ?FL ''stats:today'' (JNum 1) (Some 3600) ?l))
       = [TierCall Rest Set ''stats:today'', ConsoleError ''REST SET error:'',
          TierCall Lru Set ''stats:today'']"
    by (simp add: setCache_def setCache_try_def restSet_eq rest_configured_def lru_set_def
        record_event_def decimal.simps digit_char_def lru_maxSize_def)
  from hr hl r1 r2 l1 l2 show ?thesis by simp
qed







text \<open>
  Claim C7 says that \<open>invalidatePattern("audit:stats:*")\<close> removes the two keys
  \<open>audit:stats:a\<close> and \<open>audit:stats:b\<close> and returns 2. In Fallback mode the code keeps
  the keys that do not contain the pattern as a substring: the pattern, with its \<open>*\<close>,
  occurs in no key, nothing is removed and 0 is returned. In Primary mode the keys that
  Redis matches are removed from Redis and counted, and their copies in the in-process
  tier stay.
\<close>

theorem invalidatePattern_matching:
  "(currentCacheMode st = Mode_lru \<longrightarrow>
       fst (invalidatePattern cfg glob F pattern st)
         = Inr (length (filter (\<lambda>key. \<exists>a b. key = a @ pattern @ b) (map fst (lruCache st))))
     \<and> lruCache (snd (invalidatePattern cfg glob F pattern st))
         = filter (\<lambda>kv. \<not> (\<exists>a b. fst kv = a @ pattern @ b)) (lruCache st))
   \<and> (ENABLE_CACHE cfg \<and> currentCacheMode st = Mode_redis \<and> redisClient st
        \<and> \<not> F Redis Keys \<and> \<not> F Redis Del \<longrightarrow>
       fst (invalidatePattern cfg glob F pattern st)
         = Inr (length (filter (glob pattern) (map fst (redis_db st))))
     \<and> redis_db (snd (invalidatePattern cfg glob F pattern st))
         = filter (\<lambda>kv. \<not> glob pattern (fst kv)) (redis_db st)
     \<and> lruCache (snd (invalidatePattern cfg glob F pattern st)) = lruCache st)"
proof -
  have "fst (invalidatePattern cfg glob F pattern st)
         = Inr (length (filter (\<lambda>key. \<exists>a b. key = a @ pattern @ b) (map fst (lruCache st))))
     \<and> lruCache (snd (invalidatePattern cfg glob F pattern st))
         = filter (\<lambda>kv. \<not> (\<exists>a b. fst kv = a @ pattern @ b)) (lruCache st)"
    if "currentCacheMode st = Mode_lru"
    using invalidatePattern_lru[OF that, of cfg glob F pattern]
    by (simp only: str_includes_iff)
  then show ?thesis
    using invalidatePattern_redis[where st = st and cfg = cfg and glob = glob and F = F
        and pattern = pattern]
    by blast
qed

theorem invalidatePattern_matching_witness:
  "currentCacheMode \<lparr>currentCacheMode = Mode_lru, redisClient = True, redis_db = [],
       rest_db = [],
       lruCache = [(''audit:stats:a'', (''1'', Some 300000)),
                   (''audit:stats:b'', (''2'', Some 300000)),
                   (''audit:other:c'', (''3'', Some 300000))],
       trace = []\<rparr> = Mode_lru
   \<and> invalidatePattern
        \<lparr>ENABLE_CACHE = True, UPSTASH_REST_URL = None, UPSTASH_REST_TOKEN = None,
         DEFAULT_TTL = 300\<rparr>
        (\<lambda>p k. starts_with k ''audit:stats:'') no_faults ''audit:stats:*''
        \<lparr>currentCacheMode = Mode_lru, redisClient = True, redis_db = [], rest_db = [],
         lruCache = [(''audit:stats:a'', (''1'', Some 300000)),
                     (''audit:stats:b'', (''2'', Some 300000)),
                     (''audit:other:c'', (''3'', Some 300000))],
         trace = []\<rparr>
       = (Inr 0,
          \<lparr>currentCacheMode = Mode_lru, redisClient = True, redis_db = [], rest_db = [],
           lruCache = [(''audit:stats:a'', (''1'', Some 300000)),
                       (''audit:stats:b'', (''2'', Some 300000)),
                       (''audit:other:c'', (''3'', Some 300000))],
           trace = []\<rparr>)
   \<and> fst (invalidatePattern
        \<lparr>ENABLE_CACHE = True, UPSTASH_REST_URL = None, UPSTASH_REST_TOKEN = None,
         DEFAULT_TTL = 300\<rparr>
        (\<lambda>p k. starts_with k ''audit:stats:'') no_faults ''audit:stats:*''
        \<lparr>currentCacheMode = Mode_redis, redisClient = True,
         redis_db = [(''audit:stats:a'', (''1'', Some 300)),
                     (''audit:stats:b'', (''2'', Some 300)),
                     (''audit:other:c'', (''3'', Some 300))],
         rest_db = [],
         lruCache = [(''audit:stats:a'', (''1'', Some 300000)),
                     (''audit:stats:b'', (''2'', Some 300000)),
                     (''audit:other:c'', (''3'', Some 300000))],
         trace = []\<rparr>) = Inr 2
   \<and> lruCache (snd (invalidatePattern
        \<lparr>ENABLE_CACHE = True, UPSTASH_REST_URL = None, UPSTASH_REST_TOKEN = None,
         DEFAULT_TTL = 300\<rparr>
        (\<lambda>p k. starts_with k ''audit:stats:'') no_faults ''audit:stats:*''
        \<lparr>currentCacheMode = Mode_redis, redisClient = True,
         redis_db = [(''audit:stats:a'', (''1'', Some 300)),
                     (''audit:stats:b'', (''2'', Some 300)),
                     (''audit:other:c'', (''3'', Some 300))],
         rest_db = [],
         lruCache = [(''audit:stats:a'', (''1'', Some 300000)),
                     (''audit:stats:b'', (''2'', Some 300000)),
                     (''audit:other:c'', (''3'', Some 300000))],
         trace = []\<rparr>))
       = [(''audit:stats:a'', (''1'', Some 300000)),
          (''audit:stats:b'', (''2'', Some 300000)),
          (''audit:other:c'', (''3'', Some 300000))]"
proof -
  let ?cfg = "\<lparr>ENABLE_CACHE = True, UPSTASH_REST_URL = None, UPSTASH_REST_TOKEN = None,
         DEFAULT_TTL = 300\<rparr>"
  let ?glob = "\<lambda>(p::string) k. starts_with k ''audit:stats:''"
  let ?lru = "[(''audit:stats:a'', (''1'', Some 300000)),
               (''audit:stats:b'', (''2'', Some 300000)),
               (''audit:other:c'', (''3'', Some (300000::nat)))]"
  let ?l = "\<lparr>currentCacheMode = Mode_lru, redisClient = True, redis_db = [], rest_db = [],
         lruCache = ?lru, trace = []\<rparr>"
  let ?r = "\<lparr>currentCacheMode = Mode_redis, redisClient = True,
         redis_db = [(''audit:stats:a'', (''1'', Some 300)),
                     (''audit:stats:b'', (''2'', Some 300)),
                     (''audit:other:c'', (''3'', Some 300))],
         rest_db = [], lruCache = ?lru, trace = []\<rparr>"
  have hl: "currentCacheMode ?l = Mode_lru" by simp
  have hr: "ENABLE_CACHE ?cfg \<and> currentCacheMode ?r = Mode_redis \<and> redisClient ?r
      \<and> \<not> no_faults Redis Keys \<and> \<not> no_faults Redis Del"
    by (simp add: no_faults_def)
  have "fst (invalidatePattern ?cfg ?glob no_faults ''audit:stats:*'' ?l)
      = Inr (length (filter (\<lambda>key. \<exists>a b. key = a @ ''audit:stats:*'' @ b)
                       (map fst (lruCache ?l))))"
    using invalidatePattern_matching[where st = ?l and cfg = ?cfg and glob = ?glob
          and F = no_faults and pattern = "''audit:stats:*''"] hl
    by blast
  then have "fst (invalidatePattern ?cfg ?glob no_faults ''audit:stats:*'' ?l) = Inr 0"
    unfolding str_includes_iff[symmetric] by simp
  moreover have "snd (invalidatePattern ?cfg ?glob no_faults ''audit:stats:*'' ?l) = ?l"
    by (simp add: invalidatePattern_def lru_keys_def)
  ultimately have l: "invalidatePattern ?cfg ?glob no_faults ''audit:stats:*'' ?l = (Inr 0, ?l)"
    by (simp add: prod_eq_iff)
  have "fst (invalidatePattern ?cfg ?glob no_faults ''audit:stats:*'' ?r) = Inr 2"
    and "lruCache (snd (invalidatePattern ?cfg ?glob no_faults ''audit:stats:*'' ?r)) = ?lru"
    using invalidatePattern_matching[where st = ?r and cfg = ?cfg and glob = ?glob
          and F = no_faults and pattern = "''audit:stats:*''"] hr
    by simp_all
  with l hl show ?thesis by simp
qed




end
